theory Spec2Isabelle
  imports Complex_Main
begin

section \<open>The unit graph of convert.cpp\<close>

text \<open>
  The program keeps its units in a singly linked list \<^verbatim>\<open>unit_list\<close> of \<^verbatim>\<open>struct node\<close>;
  every node owns a singly linked list \<^verbatim>\<open>adj_list\<close> of \<^verbatim>\<open>struct edge\<close>. A linked list is
  modelled by a HOL list whose head is the cell the C pointer designates, so the
  \<^verbatim>\<open>next\<close> fields disappear. A \<^verbatim>\<open>struct node *\<close> is modelled by the name of the node:
  \<^verbatim>\<open>add_node\<close> never stores two nodes of the same name (lemma
  \<open>read_definitions_initial_graph_ok\<close>), and every pointer the program holds comes from
  \<^verbatim>\<open>find_node\<close>, which returns the first node of that name. The C type \<^verbatim>\<open>double\<close> is
  modelled by \<^typ>\<open>real\<close>: rounding, overflow, underflow and NaN are outside the model.

  \<^verbatim>\<open>exit(EXIT_FAILURE)\<close> is modelled by an error value; the four kinds below are the
  ones raised by \<^verbatim>\<open>add_edge\<close>, \<^verbatim>\<open>convert\<close> and \<^verbatim>\<open>connect\<close>.
\<close>

datatype error = ZeroFactor | UnknownUnit | NoConversionPath | DivisionByZero

record edge =
  to_node :: string
  factor :: real
  inverse_flag :: bool

record node =
  name :: string
  long_name :: string
  adj_list :: "edge list"
  visited :: bool

text \<open>The globals \<^verbatim>\<open>unit_list\<close>, \<^verbatim>\<open>result\<close> and \<^verbatim>\<open>found\<close>.\<close>

record state =
  unit_list :: "node list"
  result :: real
  found :: bool

text \<open>Static storage is zero-initialised: an empty list, \<^verbatim>\<open>result = 0\<close>, \<^verbatim>\<open>found = FALSE\<close>.\<close>

definition initial_state :: state where
  "initial_state = \<lparr>unit_list = [], result = 0, found = False\<rparr>"

text \<open>\<^verbatim>\<open>find_node\<close>: walk the list until a node of that name; \<open>None\<close> is the null pointer.\<close>

fun find_node :: "string \<Rightarrow> node list \<Rightarrow> node option" where
  "find_node nm [] = None"
| "find_node nm (t # ts) = (if nm = name t then Some t else find_node nm ts)"

text \<open>
  A write through a node pointer, \<^verbatim>\<open>n->field = ...\<close>, changes the node that the pointer
  designates and leaves the list otherwise as it is: \<open>update_node nm f\<close> applies \<open>f\<close> to
  the node which \<open>find_node nm\<close> returns.
\<close>

fun update_node :: "string \<Rightarrow> (node \<Rightarrow> node) \<Rightarrow> node list \<Rightarrow> node list" where
  "update_node nm f [] = []"
| "update_node nm f (t # ts) = (if nm = name t then f t # ts else t # update_node nm f ts)"

text \<open>
  Reads through a node pointer. An edge made by \<^verbatim>\<open>add_edge\<close> always points to a node of
  the list (lemma \<open>read_definitions_initial_graph_ok\<close>); for a name that has no node the
  model reads the mark as set and the adjacency list as empty, so that such an edge is
  skipped.
\<close>

definition node_visited :: "string \<Rightarrow> node list \<Rightarrow> bool" where
  "node_visited nm l = (case find_node nm l of Some n \<Rightarrow> visited n | None \<Rightarrow> True)"

definition node_adj_list :: "string \<Rightarrow> node list \<Rightarrow> edge list" where
  "node_adj_list nm l = (case find_node nm l of Some n \<Rightarrow> adj_list n | None \<Rightarrow> [])"

text \<open>\<^verbatim>\<open>n1->visited = TRUE\<close>\<close>

definition set_visited :: "string \<Rightarrow> state \<Rightarrow> state" where
  "set_visited nm s = s\<lparr>unit_list := update_node nm (\<lambda>n. n\<lparr>visited := True\<rparr>) (unit_list s)\<rparr>"

subsection \<open>Building the graph\<close>

text \<open>
  \<^verbatim>\<open>add_node\<close>: a unit that is already defined only produces a warning on the error
  stream; otherwise the new node becomes the head of \<^verbatim>\<open>unit_list\<close>.
\<close>

definition add_node :: "string \<Rightarrow> string \<Rightarrow> state \<Rightarrow> state" where
  "add_node new_name new_long_name s =
     (case find_node new_name (unit_list s) of
        Some t \<Rightarrow> s
      | None \<Rightarrow>
          s\<lparr>unit_list :=
              \<lparr>name = new_name, long_name = new_long_name, adj_list = [], visited = False\<rparr>
              # unit_list s\<rparr>)"

text \<open>\<^verbatim>\<open>t->next = n->adj_list; n->adj_list = t\<close>\<close>

definition push_edge :: "edge \<Rightarrow> node \<Rightarrow> node" where
  "push_edge t n = n\<lparr>adj_list := t # adj_list n\<rparr>"

definition add_edge :: "string \<Rightarrow> real \<Rightarrow> string \<Rightarrow> bool \<Rightarrow> state \<Rightarrow> error + state" where
  "add_edge name1 fac12 name2 inversion s =
     (if fac12 = 0 then Inl ZeroFactor
      else case find_node name1 (unit_list s) of
        None \<Rightarrow> Inl UnknownUnit
      | Some n1 \<Rightarrow>
          (case find_node name2 (unit_list s) of
             None \<Rightarrow> Inl UnknownUnit
           | Some n2 \<Rightarrow>
               (let l1 = update_node name1
                           (push_edge \<lparr>to_node = name2, factor = fac12,
                                       inverse_flag = inversion\<rparr>)
                           (unit_list s);
                    l2 = update_node name2
                           (push_edge \<lparr>to_node = name1,
                                       factor = (if \<not> inversion then 1 / fac12 else fac12),
                                       inverse_flag = inversion\<rparr>)
                           l1
                in Inr (s\<lparr>unit_list := l2\<rparr>))))"

text \<open>
  The lines of the definition file, as \<^verbatim>\<open>main\<close> has scanned them: a \<^verbatim>\<open>node\<close> line with
  its two names, an \<^verbatim>\<open>edge\<close> line with its inversion flag already decoded. Reading the
  file and the syntax errors of a line are not modelled.
\<close>

datatype def_record = DefineUnit string string | DefineRelation string real string bool

fun read_definitions :: "def_record list \<Rightarrow> state \<Rightarrow> error + state" where
  "read_definitions [] s = Inr s"
| "read_definitions (DefineUnit shortname longname # ds) s =
     read_definitions ds (add_node shortname longname s)"
| "read_definitions (DefineRelation from_name convfac to_name invflag # ds) s =
     (case add_edge from_name convfac to_name invflag s of
        Inl e \<Rightarrow> Inl e
      | Inr s' \<Rightarrow> read_definitions ds s')"

text \<open>The listing loop of \<^verbatim>\<open>main\<close> (taken when \<^verbatim>\<open>argc < 4\<close>): it walks \<^verbatim>\<open>unit_list\<close> from its head.\<close>

definition list_nodes :: "node list \<Rightarrow> (string \<times> string) list" where
  "list_nodes l = map (\<lambda>t. (name t, long_name t)) l"

subsection \<open>The depth-first search\<close>

text \<open>
  \<^verbatim>\<open>connect\<close> and its \<^verbatim>\<open>while\<close> loop over the adjacency list. The loop holds a pointer into
  the list of \<^verbatim>\<open>n1\<close>; \<^verbatim>\<open>connect\<close> writes only \<^verbatim>\<open>visited\<close>, \<^verbatim>\<open>result\<close> and \<^verbatim>\<open>found\<close>, so the
  edges that remain are those read when the loop started.
\<close>

function connect :: "string \<Rightarrow> string \<Rightarrow> real \<Rightarrow> state \<Rightarrow> error + state"
  and connect_edges :: "edge list \<Rightarrow> string \<Rightarrow> real \<Rightarrow> state \<Rightarrow> error + state"
where
  "connect n1 n2 val s =
     (let s1 = (if n1 = n2 then s\<lparr>result := val, found := True\<rparr> else s);
          s2 = set_visited n1 s1
      in connect_edges (node_adj_list n1 (unit_list s2)) n2 val s2)"
| "connect_edges [] n2 val s = Inr s"
| "connect_edges (t # ts) n2 val s =
     (if \<not> node_visited (to_node t) (unit_list s) then
        (if inverse_flag t then
           (if val = 0 then Inl DivisionByZero
            else (case connect (to_node t) n2 (factor t / val) s of
                    Inl e \<Rightarrow> Inl e
                  | Inr s' \<Rightarrow> connect_edges ts n2 val s'))
         else (case connect (to_node t) n2 (factor t * val) s of
                    Inl e \<Rightarrow> Inl e
                  | Inr s' \<Rightarrow> connect_edges ts n2 val s'))
      else connect_edges ts n2 val s)"
  by pat_completeness auto

text \<open>The number of nodes whose mark is not set: it bounds the depth of the recursion.\<close>

definition unvisited_count :: "node list \<Rightarrow> nat" where
  "unvisited_count l = length (filter (\<lambda>n. \<not> visited n) l)"

lemma unvisited_count_update_le:
  "unvisited_count (update_node nm (\<lambda>n. n\<lparr>visited := True\<rparr>) l) \<le> unvisited_count l"
  by (induction l) (auto simp: unvisited_count_def)

lemma unvisited_count_update_less:
  "\<not> node_visited nm l \<Longrightarrow>
   unvisited_count (update_node nm (\<lambda>n. n\<lparr>visited := True\<rparr>) l) < unvisited_count l"
  by (induction l) (auto simp: unvisited_count_def node_visited_def)

lemma unit_list_set_visited:
  "unit_list (set_visited nm s) = update_node nm (\<lambda>n. n\<lparr>visited := True\<rparr>) (unit_list s)"
  by (simp add: set_visited_def)

text \<open>Wherever the search is defined, it returns with no more unmarked nodes than before.\<close>

lemma connect_dom_unvisited_le:
  "connect_connect_edges_dom (Inl (n1, n2, val, s)) \<Longrightarrow>
     (\<And>s'. connect n1 n2 val s = Inr s' \<Longrightarrow>
       unvisited_count (unit_list s') \<le> unvisited_count (unit_list s))"
  "connect_connect_edges_dom (Inr (es, n2, val, s)) \<Longrightarrow>
     (\<And>s'. connect_edges es n2 val s = Inr s' \<Longrightarrow>
       unvisited_count (unit_list s') \<le> unvisited_count (unit_list s))"
proof (induction n1 n2 val s and es n2 val s rule: connect_connect_edges.pinduct)
  case (1 n1 n2 val s)
  let ?s1 = "if n1 = n2 then s\<lparr>result := val, found := True\<rparr> else s"
  let ?s2 = "set_visited n1 ?s1"
  from "1.prems" "1.hyps" have
    "connect_edges (node_adj_list n1 (unit_list ?s2)) n2 val ?s2 = Inr s'"
    by (simp add: connect.psimps Let_def)
  with "1.IH" have "unvisited_count (unit_list s') \<le> unvisited_count (unit_list ?s2)"
    by blast
  also have "\<dots> \<le> unvisited_count (unit_list s)"
    by (simp add: unit_list_set_visited unvisited_count_update_le)
  finally show ?case .
next
  case (2 n2 val s)
  then show ?case by (simp add: connect_edges.psimps)
next
  case (3 t ts n2 val s)
  from "3.prems" "3.hyps" show ?case
    apply (simp add: connect_edges.psimps split: if_splits sum.splits)
    using "3.IH" apply (meson order_trans)+
    done
qed

text \<open>
  The search terminates on every graph: a call of \<^verbatim>\<open>connect\<close> from the loop marks a node
  that was unmarked, and the loop shortens its list.
\<close>

termination connect
proof (relation "inv_image (less_than <*lex*> less_than <*lex*> less_than)
    (\<lambda>x. case x of
        Inl (n1, n2, val, s) \<Rightarrow>
          (unvisited_count (unit_list s) + (if node_visited n1 (unit_list s) then 1 else 0),
           Suc 0, 0)
      | Inr (es, n2, val, s) \<Rightarrow> (Suc (unvisited_count (unit_list s)), 0, length es))",
    goal_cases)
  case 1
  show ?case by (intro wf_inv_image wf_lex_prod wf_less_than)
next
  case (2 n1 n2 val s x xa)
  have "unvisited_count (unit_list xa) \<le> unvisited_count (unit_list s)"
    using 2 by (auto simp: unit_list_set_visited unvisited_count_update_le)
  moreover have "\<not> node_visited n1 (unit_list s) \<Longrightarrow>
      unvisited_count (unit_list xa) < unvisited_count (unit_list s)"
    using 2 by (auto simp: unit_list_set_visited unvisited_count_update_less)
  ultimately show ?case by auto
next
  case 3
  then show ?case by simp
next
  case 4
  then show ?case using connect_dom_unvisited_le(1) by fastforce
next
  case 5
  then show ?case by simp
next
  case 6
  then show ?case using connect_dom_unvisited_le(1) by fastforce
next
  case 7
  then show ?case by simp
qed

declare connect.simps [simp del]

text \<open>
  \<^verbatim>\<open>convert\<close>: both units are looked up, \<^verbatim>\<open>found\<close> is cleared, the search runs from the
  source node, and \<^verbatim>\<open>result\<close> is returned when \<^verbatim>\<open>found\<close> is set. The marks \<^verbatim>\<open>visited\<close> are
  not touched before the search. The state after the call is returned with the value.
\<close>

definition convert :: "real \<Rightarrow> string \<Rightarrow> string \<Rightarrow> state \<Rightarrow> error + (real \<times> state)" where
  "convert val from_unit to_unit s =
     (case find_node from_unit (unit_list s) of
        None \<Rightarrow> Inl UnknownUnit
      | Some fu \<Rightarrow>
          (case find_node to_unit (unit_list s) of
             None \<Rightarrow> Inl UnknownUnit
           | Some tu \<Rightarrow>
               (case connect (name fu) (name tu) val (s\<lparr>found := False\<rparr>) of
                  Inl e \<Rightarrow> Inl e
                | Inr s' \<Rightarrow>
                    if \<not> found s' then Inl NoConversionPath else Inr (result s', s'))))"

text \<open>
  \<^verbatim>\<open>main\<close> after the definition file is open: the definitions are read; with fewer than
  three arguments the units are listed, otherwise the one conversion is made.
\<close>

datatype outcome = Listing "(string \<times> string) list" | Converted real

definition main_prog :: "def_record list \<Rightarrow> (real \<times> string \<times> string) option \<Rightarrow> error + outcome" where
  "main_prog defs request =
     (case read_definitions defs initial_state of
        Inl e \<Rightarrow> Inl e
      | Inr s \<Rightarrow>
          (case request of
             None \<Rightarrow> Inr (Listing (list_nodes (unit_list s)))
           | Some (val, from_unit, to_unit) \<Rightarrow>
               (case convert val from_unit to_unit s of
                  Inl e \<Rightarrow> Inl e
                | Inr (r, s') \<Rightarrow> Inr (Converted r))))"

section \<open>Vocabulary of the properties\<close>

text \<open>
  What a graph made by \<^verbatim>\<open>add_node\<close> and \<^verbatim>\<open>add_edge\<close> always satisfies: no two nodes
  share a name, no factor is zero, and every edge points to a node of the list.
\<close>

definition graph_ok :: "node list \<Rightarrow> bool" where
  "graph_ok l =
     (distinct (map name l) \<and>
      (\<forall>es \<in> set (map adj_list l). \<forall>e \<in> set es.
          factor e \<noteq> 0 \<and> to_node e \<in> set (map name l)))"

text \<open>No node carries the mark \<^verbatim>\<open>visited\<close>.\<close>

definition all_unvisited :: "node list \<Rightarrow> bool" where
  "all_unvisited l = (\<forall>n \<in> set l. \<not> visited n)"

text \<open>The part of the graph that the search never writes: names and adjacency lists.\<close>

definition skeleton :: "node list \<Rightarrow> (string \<times> string \<times> edge list) list" where
  "skeleton l = map (\<lambda>n. (name n, long_name n, adj_list n)) l"



text \<open>
  The units in the order of their registration: the \<^verbatim>\<open>node\<close> lines of the file, in file
  order, without those whose name was already defined (\<open>seen\<close> holds the names defined
  so far).
\<close>

fun registrations :: "def_record list \<Rightarrow> string list \<Rightarrow> (string \<times> string) list" where
  "registrations [] seen = []"
| "registrations (DefineUnit shortname longname # ds) seen =
     (if shortname \<in> set seen then registrations ds seen
      else (shortname, longname) # registrations ds (shortname # seen))"
| "registrations (DefineRelation from_name convfac to_name invflag # ds) seen =
     registrations ds seen"

text \<open>The graph that the definitions build, for the examples below.\<close>

definition built :: "def_record list \<Rightarrow> state" where
  "built ds = (case read_definitions ds initial_state of Inr s \<Rightarrow> s | Inl e \<Rightarrow> initial_state)"


text \<open>
  Three definition files for the examples: lengths; energies with an inverted relation
  and a unit that no relation touches; and a graph in which two paths lead from \<open>A\<close> to
  \<open>B\<close>. \<open>ex_lengths_marked\<close> is the state that one conversion from \<open>m\<close> to \<open>cm\<close>
  leaves behind.
\<close>

definition ex_lengths :: "def_record list" where
  "ex_lengths =
     [DefineUnit ''m'' ''meter'', DefineUnit ''cm'' ''centimeter'',
      DefineUnit ''mm'' ''millimeter'',
      DefineRelation ''m'' 100 ''cm'' False, DefineRelation ''cm'' 10 ''mm'' False]"

definition ex_energy :: "def_record list" where
  "ex_energy =
     [DefineUnit ''meV'' ''millielectronvolt'', DefineUnit ''eV'' ''electronvolt'',
      DefineUnit ''nm'' ''nanometer'', DefineUnit ''K'' ''kelvin'',
      DefineRelation ''meV'' (1 / 1000) ''eV'' False,
      DefineRelation ''eV'' 1240 ''nm'' True]"


definition ex_lengths_marked :: state where
  "ex_lengths_marked =
     \<lparr>unit_list =
        [\<lparr>name = ''mm'', long_name = ''millimeter'',
          adj_list = [\<lparr>to_node = ''cm'', factor = 1 / 10, inverse_flag = False\<rparr>],
          visited = True\<rparr>,
         \<lparr>name = ''cm'', long_name = ''centimeter'',
          adj_list = [\<lparr>to_node = ''mm'', factor = 10, inverse_flag = False\<rparr>,
                      \<lparr>to_node = ''m'', factor = 1 / 100, inverse_flag = False\<rparr>],
          visited = True\<rparr>,
         \<lparr>name = ''m'', long_name = ''meter'',
          adj_list = [\<lparr>to_node = ''cm'', factor = 100, inverse_flag = False\<rparr>],
          visited = True\<rparr>],
      result = 100, found = True\<rparr>"

text \<open>
  The value that \<^verbatim>\<open>connect\<close> passes to the node behind an edge, and the iteration with
  which the loop of a call of \<^verbatim>\<open>connect\<close> starts: the edges to walk, the value and the
  state. \<open>reaches n2 c c'\<close> says that the loop started at the iteration \<open>c\<close>, searching
  for \<open>n2\<close>, arrives at the iteration \<open>c'\<close>, in this call or in a nested one.
\<close>

definition edge_value :: "edge \<Rightarrow> real \<Rightarrow> real" where
  "edge_value t val = (if inverse_flag t then factor t / val else factor t * val)"

definition loop_entry :: "string \<Rightarrow> string \<Rightarrow> real \<Rightarrow> state \<Rightarrow> edge list \<times> real \<times> state" where
  "loop_entry n1 n2 val s =
     (let s1 = (if n1 = n2 then s\<lparr>result := val, found := True\<rparr> else s);
          s2 = set_visited n1 s1
      in (node_adj_list n1 (unit_list s2), val, s2))"

inductive reaches :: "string \<Rightarrow> edge list \<times> real \<times> state \<Rightarrow> edge list \<times> real \<times> state \<Rightarrow> bool"
  for n2 :: string
where
  reaches_here: "reaches n2 c c"
| reaches_skip:
    "node_visited (to_node t) (unit_list s) \<Longrightarrow> reaches n2 (ts, val, s) c \<Longrightarrow>
     reaches n2 (t # ts, val, s) c"
| reaches_call:
    "\<not> node_visited (to_node t) (unit_list s) \<Longrightarrow> \<not> (inverse_flag t \<and> val = 0) \<Longrightarrow>
     reaches n2 (loop_entry (to_node t) n2 (edge_value t val) s) c \<Longrightarrow>
     reaches n2 (t # ts, val, s) c"
| reaches_next:
    "\<not> node_visited (to_node t) (unit_list s) \<Longrightarrow> \<not> (inverse_flag t \<and> val = 0) \<Longrightarrow>
     connect (to_node t) n2 (edge_value t val) s = Inr s' \<Longrightarrow>
     reaches n2 (ts, val, s') c \<Longrightarrow>
     reaches n2 (t # ts, val, s) c"

code_pred reaches .

text \<open>
  The search as the specification words it: depth first from the head of each adjacency
  list, skipping marked nodes, fatal on an inverted relation met with the value 0, and
  stopping at the first arrival at the target. It returns the relations of the path
  taken; \<open>path_value\<close> accumulates a value along a path.
\<close>

datatype search = Reached "edge list" | Exhausted "node list" | Fatal

function first_path :: "string \<Rightarrow> string \<Rightarrow> real \<Rightarrow> node list \<Rightarrow> search"
  and first_path_edges :: "edge list \<Rightarrow> string \<Rightarrow> real \<Rightarrow> node list \<Rightarrow> search"
where
  "first_path n n2 v l =
     (if n = n2 then Reached []
      else (let l' = update_node n (\<lambda>x. x\<lparr>visited := True\<rparr>) l
            in first_path_edges (node_adj_list n l') n2 v l'))"
| "first_path_edges [] n2 v l = Exhausted l"
| "first_path_edges (t # ts) n2 v l =
     (if node_visited (to_node t) l then first_path_edges ts n2 v l
      else if inverse_flag t \<and> v = 0 then Fatal
      else (case first_path (to_node t) n2 (edge_value t v) l of
              Reached p \<Rightarrow> Reached (t # p)
            | Exhausted l' \<Rightarrow> first_path_edges ts n2 v l'
            | Fatal \<Rightarrow> Fatal))"
  by pat_completeness auto

lemma first_path_dom_unvisited_le:
  "first_path_first_path_edges_dom (Inl (n, n2, v, l)) \<Longrightarrow>
     (\<And>l'. first_path n n2 v l = Exhausted l' \<Longrightarrow> unvisited_count l' \<le> unvisited_count l)"
  "first_path_first_path_edges_dom (Inr (es, n2, v, l)) \<Longrightarrow>
     (\<And>l'. first_path_edges es n2 v l = Exhausted l' \<Longrightarrow> unvisited_count l' \<le> unvisited_count l)"
proof (induction n n2 v l and es n2 v l rule: first_path_first_path_edges.pinduct)
  case (1 n n2 v l)
  let ?l1 = "update_node n (\<lambda>x. x\<lparr>visited := True\<rparr>) l"
  from "1.prems" "1.hyps" have ne: "n \<noteq> n2"
    by (auto simp: first_path.psimps)
  with "1.prems" "1.hyps" have "first_path_edges (node_adj_list n ?l1) n2 v ?l1 = Exhausted l'"
    by (simp add: first_path.psimps Let_def)
  with "1.IH" ne have "unvisited_count l' \<le> unvisited_count ?l1" by blast
  also have "\<dots> \<le> unvisited_count l" by (rule unvisited_count_update_le)
  finally show ?case .
next
  case (2 n2 v l)
  then show ?case by (simp add: first_path_edges.psimps)
next
  case (3 t ts n2 v l)
  from "3.prems" "3.hyps" show ?case
    apply (simp add: first_path_edges.psimps split: if_splits search.splits)
    using "3.IH" apply (meson order_trans)+
    done
qed

termination first_path
proof (relation "inv_image (less_than <*lex*> less_than <*lex*> less_than)
    (\<lambda>x. case x of
        Inl (n, n2, v, l) \<Rightarrow>
          (unvisited_count l + (if node_visited n l then 1 else 0), Suc 0, 0)
      | Inr (es, n2, v, l) \<Rightarrow> (Suc (unvisited_count l), 0, length es))",
    goal_cases)
  case 1
  show ?case by (intro wf_inv_image wf_lex_prod wf_less_than)
next
  case (2 n n2 v l x)
  have "unvisited_count x \<le> unvisited_count l"
    using 2 by (auto simp: unvisited_count_update_le)
  moreover have "\<not> node_visited n l \<Longrightarrow> unvisited_count x < unvisited_count l"
    using 2 by (auto simp: unvisited_count_update_less)
  ultimately show ?case by auto
next
  case 3
  then show ?case by simp
next
  case 4
  then show ?case by simp
next
  case 5
  then show ?case using first_path_dom_unvisited_le(1) by fastforce
qed

declare first_path.simps [simp del]



section \<open>Lists of nodes\<close>

lemma find_node_Some:
  "find_node nm l = Some n \<Longrightarrow> name n = nm \<and> n \<in> set l"
  by (induction l) (auto split: if_splits)

lemma find_node_None_iff:
  "find_node nm l = None \<longleftrightarrow> nm \<notin> set (map name l)"
  by (induction l) auto

lemma map_name_update_node:
  "(\<And>n. name (f n) = name n) \<Longrightarrow> map name (update_node nm f l) = map name l"
  by (induction l) auto

lemma find_node_update_node:
  "(\<And>n. name (f n) = name n) \<Longrightarrow>
   find_node nm' (update_node nm f l) =
     (if nm' = nm then map_option f (find_node nm l) else find_node nm' l)"
  by (induction l) auto

lemma name_push_edge [simp]: "name (push_edge t n) = name n"
  by (simp add: push_edge_def)

lemma list_nodes_update_node:
  "(\<And>n. name (f n) = name n \<and> long_name (f n) = long_name n) \<Longrightarrow>
   list_nodes (update_node nm f l) = list_nodes l"
  by (induction l) (auto simp: list_nodes_def)

lemma add_edge_list_nodes:
  "add_edge a f b iv s = Inr s' \<Longrightarrow> list_nodes (unit_list s') = list_nodes (unit_list s)"
  by (auto simp: add_edge_def Let_def list_nodes_update_node push_edge_def
      split: if_splits option.splits)

lemma add_edge_names:
  "add_edge a f b iv s = Inr s' \<Longrightarrow> map name (unit_list s') = map name (unit_list s)"
  by (auto simp: add_edge_def Let_def map_name_update_node
      split: if_splits option.splits)

lemma read_definitions_list_nodes:
  "read_definitions ds s = Inr s' \<Longrightarrow>
   list_nodes (unit_list s') =
     rev (registrations ds (map name (unit_list s))) @ list_nodes (unit_list s)"
proof (induction ds s rule: read_definitions.induct)
  case (1 s)
  then show ?case by simp
next
  case (2 shortname longname ds s)
  show ?case
  proof (cases "find_node shortname (unit_list s)")
    case None
    then have "shortname \<notin> set (map name (unit_list s))"
      using find_node_None_iff [of shortname "unit_list s"] by auto
    with 2 None show ?thesis
      by (simp add: add_node_def list_nodes_def)
  next
    case (Some t)
    then have "shortname \<in> set (map name (unit_list s))"
      using find_node_None_iff [of shortname "unit_list s"] by auto
    with 2 Some show ?thesis
      by (simp add: add_node_def)
  qed
next
  case (3 from_name convfac to_name invflag ds s)
  then show ?case
    by (auto split: sum.splits simp: add_edge_list_nodes add_edge_names)
qed

lemma read_definitions_append:
  "read_definitions (ds @ ds') s =
     (case read_definitions ds s of Inl e \<Rightarrow> Inl e | Inr s' \<Rightarrow> read_definitions ds' s')"
  by (induction ds s rule: read_definitions.induct) (auto split: sum.splits)

lemma node_adj_list_update_push:
  "node_adj_list nm' (update_node nm (push_edge t) l) =
     (if nm' = nm \<and> find_node nm l \<noteq> None then t # node_adj_list nm l
      else node_adj_list nm' l)"
  by (auto simp: node_adj_list_def find_node_update_node push_edge_def split: option.splits)

lemma update_node_push_fields:
  "map name (update_node nm (push_edge t) l) = map name l"
  "map long_name (update_node nm (push_edge t) l) = map long_name l"
  "map visited (update_node nm (push_edge t) l) = map visited l"
  by (induction l) (auto simp: push_edge_def)

lemma update_node_length [simp]: "length (update_node nm f l) = length l"
  by (induction l) auto

lemma update_node_other:
  "i < length l \<Longrightarrow> name (l ! i) \<noteq> nm \<Longrightarrow> update_node nm f l ! i = l ! i"
proof (induction l arbitrary: i)
  case Nil
  then show ?case by simp
next
  case (Cons a l)
  then show ?case by (cases i) auto
qed

lemma add_edge_result:
  assumes "fac12 \<noteq> 0" "find_node name1 (unit_list s) \<noteq> None"
    "find_node name2 (unit_list s) \<noteq> None"
  shows "add_edge name1 fac12 name2 inversion s =
     Inr (s\<lparr>unit_list :=
        update_node name2
          (push_edge \<lparr>to_node = name1, factor = (if \<not> inversion then 1 / fac12 else fac12),
                      inverse_flag = inversion\<rparr>)
          (update_node name1
             (push_edge \<lparr>to_node = name2, factor = fac12, inverse_flag = inversion\<rparr>)
             (unit_list s))\<rparr>)"
  using assms by (auto simp: add_edge_def Let_def)

lemma find_node_update_push_None:
  "find_node nm' (update_node nm (push_edge t) l) = None \<longleftrightarrow> find_node nm' l = None"
  by (simp add: find_node_update_node)

section \<open>What the search preserves\<close>

lemma skeleton_update_visited:
  "skeleton (update_node nm (\<lambda>n. n\<lparr>visited := True\<rparr>) l) = skeleton l"
  by (induction l) (auto simp: skeleton_def)

lemma skeleton_set_visited [simp]:
  "skeleton (unit_list (set_visited nm s)) = skeleton (unit_list s)"
  by (simp add: set_visited_def skeleton_update_visited)


lemma node_visited_set_visited:
  "node_visited nm (unit_list (set_visited nm' s)) =
     (nm = nm' \<or> node_visited nm (unit_list s))"
  by (auto simp: node_visited_def set_visited_def find_node_update_node split: option.splits)

lemma connect_error_kind:
  "connect n1 n2 val s = Inl e \<Longrightarrow> e = DivisionByZero"
  "connect_edges es n2 val s = Inl e \<Longrightarrow> e = DivisionByZero"
proof (induction n1 n2 val s and es n2 val s rule: connect_connect_edges.induct)
  case (1 n1 n2 val s)
  then show ?case by (simp add: connect.simps [of n1 n2 val s] Let_def)
next
  case (2 n2 val s)
  then show ?case by simp
next
  case (3 t ts n2 val s)
  from "3.prems" show ?case
    by (auto split: if_splits sum.splits intro: "3.IH")
qed

lemma connect_preserves:
  "connect n1 n2 val s = Inr s' \<Longrightarrow>
     skeleton (unit_list s') = skeleton (unit_list s) \<and>
     (\<forall>nm. node_visited nm (unit_list s) \<longrightarrow> node_visited nm (unit_list s')) \<and>
     node_visited n1 (unit_list s')"
  "connect_edges es n2 val s = Inr s' \<Longrightarrow>
     skeleton (unit_list s') = skeleton (unit_list s) \<and>
     (\<forall>nm. node_visited nm (unit_list s) \<longrightarrow> node_visited nm (unit_list s'))"
proof (induction n1 n2 val s and es n2 val s arbitrary: s' and s'
    rule: connect_connect_edges.induct)
  case (1 n1 n2 val s)
  let ?s1 = "if n1 = n2 then s\<lparr>result := val, found := True\<rparr> else s"
  let ?s2 = "set_visited n1 ?s1"
  from "1.prems" have run: "connect_edges (node_adj_list n1 (unit_list ?s2)) n2 val ?s2 = Inr s'"
    by (simp add: connect.simps [of n1 n2 val s] Let_def)
  from "1.IH" [OF refl refl run] show ?case
    by (auto simp: node_visited_set_visited)
next
  case (2 n2 val s)
  then show ?case by simp
next
  case (3 t ts n2 val s)
  show ?case
  proof (cases "node_visited (to_node t) (unit_list s)")
    case True
    with "3.prems" "3.IH"(5) show ?thesis by simp
  next
    case False
    note unv = this
    show ?thesis
    proof (cases "inverse_flag t")
      case True
      with unv "3.prems" have nz: "val \<noteq> 0" by (auto split: if_splits)
      from unv True nz "3.prems" obtain s1 where
        c: "connect (to_node t) n2 (factor t / val) s = Inr s1" and
        r: "connect_edges ts n2 val s1 = Inr s'"
        by (auto split: sum.splits)
      from "3.IH"(1) [OF unv True nz c] "3.IH"(2) [OF unv True nz c r]
      show ?thesis by auto
    next
      case False
      from unv False "3.prems" obtain s1 where
        c: "connect (to_node t) n2 (factor t * val) s = Inr s1" and
        r: "connect_edges ts n2 val s1 = Inr s'"
        by (auto split: sum.splits)
      from "3.IH"(3) [OF unv False c] "3.IH"(4) [OF unv False c r]
      show ?thesis by auto
    qed
  qed
qed










section \<open>Graphs made by the definitions\<close>

lemma add_node_graph_ok:
  "graph_ok (unit_list s) \<Longrightarrow> graph_ok (unit_list (add_node a lname s))"
  using find_node_None_iff [of a "unit_list s"]
  by (auto simp: add_node_def graph_ok_def split: option.splits)

lemma adj_lists_update_push:
  "es \<in> set (map adj_list (update_node nm (push_edge t) l)) \<Longrightarrow>
   es \<in> set (map adj_list l) \<or> (\<exists>es' \<in> set (map adj_list l). es = t # es')"
  by (induction l) (auto simp: push_edge_def split: if_splits)

lemma graph_ok_update_push:
  assumes "graph_ok l" "factor t \<noteq> 0" "to_node t \<in> set (map name l)"
  shows "graph_ok (update_node nm (push_edge t) l)"
proof -
  have names: "map name (update_node nm (push_edge t) l) = map name l"
    by (simp add: map_name_update_node)
  have "factor e \<noteq> 0 \<and> to_node e \<in> set (map name l)"
    if "es \<in> set (map adj_list (update_node nm (push_edge t) l))" "e \<in> set es" for es e
    using adj_lists_update_push [OF that(1)] that(2) assms
    by (auto simp: graph_ok_def)
  with assms(1) names show ?thesis
    unfolding graph_ok_def by (metis (no_types, lifting))
qed

lemma add_edge_graph_ok:
  assumes "graph_ok (unit_list s)" "add_edge a f b iv s = Inr s'"
  shows "graph_ok (unit_list s')"
proof -
  from assms(2) have f: "f \<noteq> 0" by (auto simp: add_edge_def split: if_splits)
  from assms(2) f obtain n1 n2 where n1: "find_node a (unit_list s) = Some n1"
    and n2: "find_node b (unit_list s) = Some n2"
    by (auto simp: add_edge_def split: option.splits)
  let ?fwd = "\<lparr>to_node = b, factor = f, inverse_flag = iv\<rparr>"
  let ?rev = "\<lparr>to_node = a, factor = (if \<not> iv then 1 / f else f), inverse_flag = iv\<rparr>"
  let ?l1 = "update_node a (push_edge ?fwd) (unit_list s)"
  from assms(2) f n1 n2 have s': "unit_list s' = update_node b (push_edge ?rev) ?l1"
    by (auto simp: add_edge_def Let_def)
  from n1 n2 have a: "a \<in> set (map name (unit_list s))" and b: "b \<in> set (map name (unit_list s))"
    using find_node_None_iff [of a "unit_list s"] find_node_None_iff [of b "unit_list s"]
    by auto
  from f have ff: "factor ?fwd \<noteq> 0" by simp
  from b have tf: "to_node ?fwd \<in> set (map name (unit_list s))" by simp
  have ok1: "graph_ok ?l1" by (rule graph_ok_update_push [OF assms(1) ff tf])
  have "map name ?l1 = map name (unit_list s)" by (simp add: map_name_update_node)
  with a have tr: "to_node ?rev \<in> set (map name ?l1)" by simp
  from f have fr: "factor ?rev \<noteq> 0" by simp
  have "graph_ok (update_node b (push_edge ?rev) ?l1)"
    by (rule graph_ok_update_push [OF ok1 fr tr])
  with s' show ?thesis by simp
qed

lemma read_definitions_graph_ok:
  "read_definitions ds s = Inr s' \<Longrightarrow> graph_ok (unit_list s) \<Longrightarrow> graph_ok (unit_list s')"
  by (induction ds s rule: read_definitions.induct)
     (auto split: sum.splits simp: add_node_graph_ok add_edge_graph_ok)

lemma graph_ok_initial: "graph_ok (unit_list initial_state)"
  by (simp add: graph_ok_def initial_state_def)

text \<open>Every graph that the definitions build is well formed.\<close>

lemma read_definitions_initial_graph_ok:
  "read_definitions ds initial_state = Inr s \<Longrightarrow> graph_ok (unit_list s)"
  using read_definitions_graph_ok [of ds initial_state s] graph_ok_initial by simp

lemma all_unvisited_update_push:
  "all_unvisited (update_node nm (push_edge t) l) = all_unvisited l"
  by (induction l) (auto simp: all_unvisited_def push_edge_def)

lemma add_edge_all_unvisited:
  "add_edge a f b iv s = Inr s' \<Longrightarrow> all_unvisited (unit_list s') = all_unvisited (unit_list s)"
  by (auto simp: add_edge_def Let_def all_unvisited_update_push split: if_splits option.splits)

lemma add_node_all_unvisited:
  "all_unvisited (unit_list (add_node a lname s)) = all_unvisited (unit_list s)"
  by (auto simp: add_node_def all_unvisited_def split: option.splits)

lemma read_definitions_all_unvisited:
  "read_definitions ds s = Inr s' \<Longrightarrow> all_unvisited (unit_list s) \<Longrightarrow>
   all_unvisited (unit_list s')"
  by (induction ds s rule: read_definitions.induct)
     (auto split: sum.splits simp: add_node_all_unvisited add_edge_all_unvisited)


lemma convert_unknown_iff:
  "(convert val from_unit to_unit s = Inl UnknownUnit) =
     (find_node from_unit (unit_list s) = None \<or> find_node to_unit (unit_list s) = None)"
proof -
  have "connect n1 n2 val s0 \<noteq> Inl UnknownUnit" for n1 n2 s0
    using connect_error_kind(1) [of n1 n2 val s0 UnknownUnit] by auto
  then show ?thesis
    by (auto simp: convert_def split: option.splits sum.splits)
qed

section \<open>The search step by step\<close>

lemma connect_loop_entry:
  "connect n1 n2 val s =
     (case loop_entry n1 n2 val s of (es, v, s2) \<Rightarrow> connect_edges es n2 v s2)"
  by (simp add: connect.simps [of n1 n2 val s] loop_entry_def Let_def)

lemma connect_edges_step:
  "\<not> node_visited (to_node t) (unit_list s) \<Longrightarrow> \<not> (inverse_flag t \<and> val = 0) \<Longrightarrow>
   connect_edges (t # ts) n2 val s =
     (case connect (to_node t) n2 (edge_value t val) s of
        Inl e \<Rightarrow> Inl e | Inr s' \<Rightarrow> connect_edges ts n2 val s')"
  by (auto simp: edge_value_def)

lemma reaches_zero_aborts:
  assumes "reaches n2 (es, val, s) (t # ts, 0, s0)"
    and "inverse_flag t" "\<not> node_visited (to_node t) (unit_list s0)"
  shows "connect_edges es n2 val s = Inl DivisionByZero"
  using assms
proof (induction "(es, val, s)" "(t # ts, 0::real, s0)" arbitrary: es val s rule: reaches.induct)
  case reaches_here
  then show ?case by simp
next
  case (reaches_skip t' s' ts' val')
  then show ?case by simp
next
  case (reaches_call t' s' val' ts')
  obtain es1 v1 s1 where le: "loop_entry (to_node t') n2 (edge_value t' val') s' = (es1, v1, s1)"
    by (cases "loop_entry (to_node t') n2 (edge_value t' val') s'") auto
  from reaches_call.hyps(4) [OF le reaches_call.prems]
  have "connect (to_node t') n2 (edge_value t' val') s' = Inl DivisionByZero"
    by (simp add: connect_loop_entry le)
  then show ?case
    unfolding connect_edges_step [OF reaches_call.hyps(1,2)] by simp
next
  case (reaches_next t' s' val' s'' ts')
  from reaches_next.hyps(5) [OF reaches_next.prems]
  have "connect_edges ts' n2 val' s'' = Inl DivisionByZero" .
  with reaches_next.hyps(3) show ?case
    unfolding connect_edges_step [OF reaches_next.hyps(1,2)] by simp
qed








lemma convert_marks:
  assumes "convert val from_unit to_unit s = Inr (r, s')"
  shows "node_visited from_unit (unit_list s') \<and>
         (\<forall>nm. node_visited nm (unit_list s) \<longrightarrow> node_visited nm (unit_list s'))"
proof -
  from assms obtain fu tu where fu: "find_node from_unit (unit_list s) = Some fu"
    and tu: "find_node to_unit (unit_list s) = Some tu"
    by (auto simp: convert_def split: option.splits)
  then have nm: "name fu = from_unit" "name tu = to_unit" by (simp_all add: find_node_Some)
  from assms fu tu nm have c: "connect from_unit to_unit val (s\<lparr>found := False\<rparr>) = Inr s'"
    by (auto simp: convert_def split: sum.splits if_splits)
  from connect_preserves(1) [OF c] show ?thesis by simp
qed

section \<open>The search is exhaustive\<close>








section \<open>The example graphs\<close>

lemma list_nodes_zip: "list_nodes l = zip (map name l) (map long_name l)"
  by (induction l) (simp_all add: list_nodes_def)

lemma built_ex_lengths:
  "read_definitions ex_lengths initial_state = Inr (built ex_lengths)"
  by code_simp



section \<open>The first path found wins\<close>



section \<open>Inserting a relation\<close>

text \<open>
  Claim C2, amended. \<^verbatim>\<open>add_edge\<close> with a nonzero factor between two defined units
  succeeds. When the units differ, the relation with the declared factor and flag
  becomes the head of the first unit's list, and the reverse relation (factor \<open>1/f\<close> when
  the flag is not set, factor \<open>f\<close> when it is, the same flag) the head of the second
  unit's list. When both names are the same unit, both relations are put in front of
  that unit's list, the reverse one first. The lists read under any other name, every
  node of another name, all names, long names and marks, \<^verbatim>\<open>result\<close> and \<^verbatim>\<open>found\<close> are
  unchanged.
\<close>

theorem add_edge_inserts_two_relations:
  assumes "fac12 \<noteq> 0" "find_node name1 (unit_list s) \<noteq> None"
    "find_node name2 (unit_list s) \<noteq> None"
  shows "\<exists>s'. add_edge name1 fac12 name2 inversion s = Inr s' \<and>
    (let l = unit_list s; l' = unit_list s';
         fwd = \<lparr>to_node = name2, factor = fac12, inverse_flag = inversion\<rparr>;
         rev = \<lparr>to_node = name1, factor = (if inversion then fac12 else 1 / fac12),
                inverse_flag = inversion\<rparr>
     in (name1 \<noteq> name2 \<longrightarrow>
           node_adj_list name1 l' = fwd # node_adj_list name1 l \<and>
           node_adj_list name2 l' = rev # node_adj_list name2 l) \<and>
        (name1 = name2 \<longrightarrow> node_adj_list name1 l' = rev # fwd # node_adj_list name1 l) \<and>
        (\<forall>nm. nm \<noteq> name1 \<and> nm \<noteq> name2 \<longrightarrow> node_adj_list nm l' = node_adj_list nm l) \<and>
        (\<forall>i < length l. name (l ! i) \<noteq> name1 \<and> name (l ! i) \<noteq> name2 \<longrightarrow> l' ! i = l ! i) \<and>
        map name l' = map name l \<and> map long_name l' = map long_name l \<and>
        map visited l' = map visited l \<and>
        result s' = result s \<and> found s' = found s)"
  unfolding add_edge_result [OF assms] using assms(2,3)
  by (auto simp: Let_def node_adj_list_update_push find_node_update_push_None
      update_node_push_fields update_node_other)

theorem add_edge_inserts_two_relations_witness:
  "(1000::real) \<noteq> 0 \<and> find_node ''m'' (unit_list (built ex_lengths)) \<noteq> None \<and>
   find_node ''mm'' (unit_list (built ex_lengths)) \<noteq> None \<and>
   (\<exists>s'. add_edge ''m'' 1000 ''mm'' False (built ex_lengths) = Inr s' \<and>
      node_adj_list ''m'' (unit_list s') =
        [\<lparr>to_node = ''mm'', factor = 1000, inverse_flag = False\<rparr>,
         \<lparr>to_node = ''cm'', factor = 100, inverse_flag = False\<rparr>] \<and>
      node_adj_list ''mm'' (unit_list s') =
        [\<lparr>to_node = ''m'', factor = 1 / 1000, inverse_flag = False\<rparr>,
         \<lparr>to_node = ''cm'', factor = 1 / 10, inverse_flag = False\<rparr>] \<and>
      node_adj_list ''cm'' (unit_list s') = node_adj_list ''cm'' (unit_list (built ex_lengths)) \<and>
      map visited (unit_list s') = [False, False, False] \<and>
      list_nodes (unit_list s') = list_nodes (unit_list (built ex_lengths)))"
proof -
  let ?s = "built ex_lengths"
  have h1: "(1000::real) \<noteq> 0" by simp
  have h2: "find_node ''m'' (unit_list ?s) \<noteq> None" by code_simp
  have h3: "find_node ''mm'' (unit_list ?s) \<noteq> None" by code_simp
  have a1: "node_adj_list ''m'' (unit_list ?s) =
      [\<lparr>to_node = ''cm'', factor = 100, inverse_flag = False\<rparr>]" by code_simp
  have a2: "node_adj_list ''mm'' (unit_list ?s) =
      [\<lparr>to_node = ''cm'', factor = 1 / 10, inverse_flag = False\<rparr>]" by code_simp
  have a3: "map visited (unit_list ?s) = [False, False, False]" by code_simp
  from add_edge_inserts_two_relations [OF h1 h2 h3, of False] obtain s' where
    s': "add_edge ''m'' 1000 ''mm'' False ?s = Inr s'"
    and 1: "node_adj_list ''m'' (unit_list s') =
        \<lparr>to_node = ''mm'', factor = 1000, inverse_flag = False\<rparr> # node_adj_list ''m'' (unit_list ?s)"
    and 2: "node_adj_list ''mm'' (unit_list s') =
        \<lparr>to_node = ''m'', factor = 1 / 1000, inverse_flag = False\<rparr>
        # node_adj_list ''mm'' (unit_list ?s)"
    and 3: "node_adj_list ''cm'' (unit_list s') = node_adj_list ''cm'' (unit_list ?s)"
    and 4: "map visited (unit_list s') = map visited (unit_list ?s)"
    and 5: "map name (unit_list s') = map name (unit_list ?s)"
    and 6: "map long_name (unit_list s') = map long_name (unit_list ?s)"
    by (auto simp: Let_def)
  have 7: "list_nodes (unit_list s') = list_nodes (unit_list ?s)"
    by (simp only: list_nodes_zip 5 6)
  from s' 1 2 3 4 7 a1 a2 a3 h1 h2 h3 show ?thesis by auto
qed

theorem add_edge_self_relation_counterexample:
  "find_node ''m'' (unit_list (built [DefineUnit ''m'' ''meter''])) \<noteq> None \<and>
   add_edge ''m'' 2 ''m'' False (built [DefineUnit ''m'' ''meter'']) =
     Inr \<lparr>unit_list =
            [\<lparr>name = ''m'', long_name = ''meter'',
              adj_list = [\<lparr>to_node = ''m'', factor = 1 / 2, inverse_flag = False\<rparr>,
                          \<lparr>to_node = ''m'', factor = 2, inverse_flag = False\<rparr>],
              visited = False\<rparr>],
          result = 0, found = False\<rparr> \<and>
   \<lparr>to_node = ''m'', factor = 1 / 2, inverse_flag = False\<rparr>
     \<noteq> \<lparr>to_node = ''m'', factor = 2, inverse_flag = False\<rparr>"
  by code_simp

section \<open>The marks of the search\<close>

text \<open>
  Claim C3, amended. When the definitions have been read, no node is marked: the marks
  are unset before the first conversion, the only one a run of the program makes.
  \<^verbatim>\<open>convert\<close> itself never clears a mark: every node marked when a call begins is still
  marked when it returns, and so is the source of the call; a later call on the same
  graph starts from these marks.
\<close>

theorem visited_unset_after_definitions:
  "(read_definitions ds initial_state = Inr s \<longrightarrow> all_unvisited (unit_list s)) \<and>
   (convert val from_unit to_unit sa = Inr (r, sa') \<longrightarrow>
      node_visited from_unit (unit_list sa') \<and>
      (\<forall>nm. node_visited nm (unit_list sa) \<longrightarrow> node_visited nm (unit_list sa')))"
  using read_definitions_all_unvisited [of ds initial_state s]
    convert_marks [of val from_unit to_unit sa r sa']
  by (auto simp: all_unvisited_def initial_state_def)

theorem visited_unset_after_definitions_witness:
  "read_definitions ex_lengths initial_state = Inr (built ex_lengths) \<and>
   all_unvisited (unit_list (built ex_lengths)) \<and>
   convert 1 ''cm'' ''mm'' (set_visited ''m'' (built ex_lengths)) =
     Inr (10, set_visited ''mm'' (set_visited ''cm'' (set_visited ''m''
            ((built ex_lengths)\<lparr>result := 10, found := True\<rparr>)))) \<and>
   node_visited ''m'' (unit_list (set_visited ''m'' (built ex_lengths))) \<and>
   node_visited ''m'' (unit_list (set_visited ''mm'' (set_visited ''cm'' (set_visited ''m''
            ((built ex_lengths)\<lparr>result := 10, found := True\<rparr>))))) \<and>
   node_visited ''cm'' (unit_list (set_visited ''mm'' (set_visited ''cm'' (set_visited ''m''
            ((built ex_lengths)\<lparr>result := 10, found := True\<rparr>)))))"
proof -
  let ?sa = "set_visited ''m'' (built ex_lengths)"
  let ?sa' = "set_visited ''mm'' (set_visited ''cm'' (set_visited ''m''
            ((built ex_lengths)\<lparr>result := 10, found := True\<rparr>)))"
  have h1: "read_definitions ex_lengths initial_state = Inr (built ex_lengths)" by code_simp
  have h2: "convert 1 ''cm'' ''mm'' ?sa = Inr (10, ?sa')" by code_simp
  have h3: "node_visited ''m'' (unit_list ?sa)" by code_simp
  from visited_unset_after_definitions
    [of ex_lengths "built ex_lengths" 1 "''cm''" "''mm''" ?sa 10 ?sa'] h1 h2 h3
  show ?thesis by simp
qed

theorem visited_marks_leak_counterexample:
  "convert 1 ''m'' ''cm'' (built ex_lengths) = Inr (100, ex_lengths_marked) \<and>
   \<not> all_unvisited (unit_list ex_lengths_marked) \<and>
   convert 1 ''m'' ''cm'' ex_lengths_marked = Inl NoConversionPath"
  by code_simp

section \<open>Listing the units\<close>

text \<open>
  Claim C4, amended. When the definitions are accepted and no conversion is requested,
  the program lists the name and long name of every registered unit in the reverse of
  the registration order: the unit registered last comes first.
\<close>

theorem listing_reverse_registration_order:
  "read_definitions ds initial_state = Inr s \<Longrightarrow>
   main_prog ds None = Inr (Listing (rev (registrations ds [])))"
  using read_definitions_list_nodes [of ds initial_state s]
  by (simp add: main_prog_def initial_state_def list_nodes_def)

theorem listing_reverse_registration_order_witness:
  "read_definitions ex_lengths initial_state = Inr (built ex_lengths) \<and>
   main_prog ex_lengths None = Inr (Listing (rev (registrations ex_lengths []))) \<and>
   rev (registrations ex_lengths []) =
     [(''mm'', ''millimeter''), (''cm'', ''centimeter''), (''m'', ''meter'')]"
proof -
  have h: "read_definitions ex_lengths initial_state = Inr (built ex_lengths)" by code_simp
  have r: "rev (registrations ex_lengths []) =
     [(''mm'', ''millimeter''), (''cm'', ''centimeter''), (''m'', ''meter'')]" by code_simp
  from listing_reverse_registration_order [OF h] h r show ?thesis by simp
qed

theorem listing_order_counterexample:
  "registrations ex_lengths [] =
     [(''m'', ''meter''), (''cm'', ''centimeter''), (''mm'', ''millimeter'')] \<and>
   main_prog ex_lengths None =
     Inr (Listing [(''mm'', ''millimeter''), (''cm'', ''centimeter''), (''m'', ''meter'')])"
  by code_simp

section \<open>Division by zero\<close>

text \<open>
  Claim C5. If, during a conversion between two defined units, the loop of \<^verbatim>\<open>connect\<close>
  arrives (at any depth) at an inverted relation to an unmarked node while the
  accumulated value is 0, then the conversion ends with \<open>DivisionByZero\<close>: the relations
  that remain in that list and in the lists of the enclosing calls are not tried.
\<close>

theorem zero_at_inverted_relation_aborts:
  assumes "find_node from_unit (unit_list s) \<noteq> None" "find_node to_unit (unit_list s) \<noteq> None"
    and "reaches to_unit (loop_entry from_unit to_unit val (s\<lparr>found := False\<rparr>)) (t # ts, 0, s0)"
    and "inverse_flag t" "\<not> node_visited (to_node t) (unit_list s0)"
  shows "convert val from_unit to_unit s = Inl DivisionByZero"
proof -
  from assms obtain fu tu where fu: "find_node from_unit (unit_list s) = Some fu"
    and tu: "find_node to_unit (unit_list s) = Some tu" by auto
  then have nm: "name fu = from_unit" "name tu = to_unit" by (simp_all add: find_node_Some)
  obtain es1 v1 s1 where le: "loop_entry from_unit to_unit val (s\<lparr>found := False\<rparr>) = (es1, v1, s1)"
    by (cases "loop_entry from_unit to_unit val (s\<lparr>found := False\<rparr>)") auto
  from reaches_zero_aborts [OF assms(3) [unfolded le] assms(4,5)]
  have "connect from_unit to_unit val (s\<lparr>found := False\<rparr>) = Inl DivisionByZero"
    by (simp add: connect_loop_entry le)
  with fu tu nm show ?thesis by (simp add: convert_def)
qed

theorem zero_at_inverted_relation_aborts_witness:
  "find_node ''meV'' (unit_list (built ex_energy)) \<noteq> None \<and>
   find_node ''K'' (unit_list (built ex_energy)) \<noteq> None \<and>
   reaches ''K'' (loop_entry ''meV'' ''K'' 0 ((built ex_energy)\<lparr>found := False\<rparr>))
     (\<lparr>to_node = ''nm'', factor = 1240, inverse_flag = True\<rparr>
        # [\<lparr>to_node = ''meV'', factor = 1000, inverse_flag = False\<rparr>],
      0, set_visited ''eV'' (set_visited ''meV'' ((built ex_energy)\<lparr>found := False\<rparr>))) \<and>
   inverse_flag \<lparr>to_node = ''nm'', factor = 1240, inverse_flag = True\<rparr> \<and>
   \<not> node_visited (to_node \<lparr>to_node = ''nm'', factor = 1240, inverse_flag = True\<rparr>)
       (unit_list (set_visited ''eV'' (set_visited ''meV''
          ((built ex_energy)\<lparr>found := False\<rparr>)))) \<and>
   convert 0 ''meV'' ''K'' (built ex_energy) = Inl DivisionByZero"
proof -
  let ?s = "built ex_energy"
  let ?sy = "set_visited ''meV'' (?s\<lparr>found := False\<rparr>)"
  let ?ta = "\<lparr>to_node = ''eV'', factor = 1 / 1000, inverse_flag = False\<rparr>"
  let ?t = "\<lparr>to_node = ''nm'', factor = 1240, inverse_flag = True\<rparr>"
  let ?ts = "[\<lparr>to_node = ''meV'', factor = 1000, inverse_flag = False\<rparr>]"
  let ?sz = "set_visited ''eV'' ?sy"
  have h1: "find_node ''meV'' (unit_list ?s) \<noteq> None" by code_simp
  have h2: "find_node ''K'' (unit_list ?s) \<noteq> None" by code_simp
  have e1: "loop_entry ''meV'' ''K'' 0 (?s\<lparr>found := False\<rparr>) = ([?ta], 0, ?sy)"
    by code_simp
  have e2: "loop_entry (to_node ?ta) ''K'' (edge_value ?ta 0) ?sy = (?t # ?ts, 0, ?sz)"
    by code_simp
  have u1: "\<not> node_visited (to_node ?ta) (unit_list ?sy)" by code_simp
  have n1: "\<not> (inverse_flag ?ta \<and> (0::real) = 0)" by simp
  have "reaches ''K'' (loop_entry (to_node ?ta) ''K'' (edge_value ?ta 0) ?sy) (?t # ?ts, 0, ?sz)"
    unfolding e2 by (rule reaches_here)
  from reaches_call [OF u1 n1 this]
  have h3: "reaches ''K'' (loop_entry ''meV'' ''K'' 0 (?s\<lparr>found := False\<rparr>)) (?t # ?ts, 0, ?sz)"
    unfolding e1 .
  have h4: "inverse_flag ?t" by simp
  have h5: "\<not> node_visited (to_node ?t) (unit_list ?sz)" by code_simp
  from zero_at_inverted_relation_aborts [OF h1 h2 h3 h4 h5] h1 h2 h3 h4 h5
  show ?thesis by blast
qed

section \<open>Units that no chain connects\<close>




section \<open>Unknown units\<close>

text \<open>
  Claim C7, amended. \<^verbatim>\<open>add_edge\<close> fails with \<open>UnknownUnit\<close> exactly when the factor is
  not 0 and one of the two names has no node; \<^verbatim>\<open>convert\<close> fails with \<open>UnknownUnit\<close>
  exactly when one of the two names has no node.
\<close>

theorem unknown_unit_triggers:
  "((add_edge name1 fac12 name2 inversion s = Inl UnknownUnit) =
      (fac12 \<noteq> 0 \<and>
       (find_node name1 (unit_list s) = None \<or> find_node name2 (unit_list s) = None))) \<and>
   ((convert val from_unit to_unit s = Inl UnknownUnit) =
      (find_node from_unit (unit_list s) = None \<or> find_node to_unit (unit_list s) = None))"
  using convert_unknown_iff [of val from_unit to_unit s]
  by (auto simp: add_edge_def Let_def split: option.splits)

theorem unknown_unit_triggers_witness:
  "add_edge ''m'' 3 ''ft'' False (built ex_lengths) = Inl UnknownUnit \<and>
   convert 1 ''ft'' ''m'' (built ex_lengths) = Inl UnknownUnit \<and>
   find_node ''ft'' (unit_list (built ex_lengths)) = None"
proof -
  have h: "find_node ''ft'' (unit_list (built ex_lengths)) = None" by code_simp
  from unknown_unit_triggers [of "''m''" 3 "''ft''" False "built ex_lengths" 1 "''ft''" "''m''"] h
  show ?thesis by simp
qed

theorem unknown_unit_zero_factor_counterexample:
  "find_node ''ft'' (unit_list (built ex_lengths)) = None \<and>
   add_edge ''m'' 0 ''ft'' False (built ex_lengths) = Inl ZeroFactor \<and>
   ZeroFactor \<noteq> UnknownUnit"
  by code_simp

section \<open>A relation with factor zero\<close>

text \<open>
  Claim C8. \<^verbatim>\<open>add_edge\<close> called with a factor equal to 0 fails with \<open>ZeroFactor\<close>, whatever
  the two names and the flag are: no state is returned, so no relation has been
  inserted. The failure happens while the definitions are read: when the lines before
  the offending one were accepted, the whole run ends with \<open>ZeroFactor\<close>, whatever the
  request is, and no conversion is made.
\<close>

theorem add_edge_zero_factor:
  "add_edge name1 0 name2 inversion s = Inl ZeroFactor \<and>
   (read_definitions ds initial_state = Inr s \<longrightarrow>
      main_prog (ds @ DefineRelation name1 0 name2 inversion # ds') request = Inl ZeroFactor)"
  by (simp add: add_edge_def main_prog_def read_definitions_append)

theorem add_edge_zero_factor_witness:
  "read_definitions [DefineUnit ''m'' ''meter'', DefineUnit ''cm'' ''centimeter'']
      initial_state
     = Inr \<lparr>unit_list =
              [\<lparr>name = ''cm'', long_name = ''centimeter'', adj_list = [], visited = False\<rparr>,
               \<lparr>name = ''m'', long_name = ''meter'', adj_list = [], visited = False\<rparr>],
            result = 0, found = False\<rparr> \<and>
   main_prog ([DefineUnit ''m'' ''meter'', DefineUnit ''cm'' ''centimeter'']
              @ DefineRelation ''m'' 0 ''cm'' False # [])
             (Some (1, ''m'', ''cm'')) = Inl ZeroFactor"
proof -
  have h: "read_definitions [DefineUnit ''m'' ''meter'', DefineUnit ''cm'' ''centimeter'']
      initial_state
     = Inr \<lparr>unit_list =
              [\<lparr>name = ''cm'', long_name = ''centimeter'', adj_list = [], visited = False\<rparr>,
               \<lparr>name = ''m'', long_name = ''meter'', adj_list = [], visited = False\<rparr>],
            result = 0, found = False\<rparr>"
    by (simp add: add_node_def initial_state_def)
  from add_edge_zero_factor [of "''m''" "''cm''" False _
      "[DefineUnit ''m'' ''meter'', DefineUnit ''cm'' ''centimeter'']" "[]"
      "Some (1, ''m'', ''cm'')"] h
  show ?thesis by blast
qed

section \<open>An inverted relation and its reverse\<close>




section \<open>Converting a unit to itself\<close>




end
